theory Spec2Isabelle
  imports Complex_Main "HOL-Library.Word" "HOL-Library.AList"
begin

section \<open>Strings of the host language\<close>

text \<open>
  A string of the program is a sequence of 16-bit code units.  String literals of the
  source are written \<open>js ''...''\<close>.
\<close>

type_synonym jschar = "16 word"
type_synonym jsstring = "jschar list"

definition js :: "string \<Rightarrow> jsstring" where
  "js s = map (\<lambda>c. of_char c) s"

text \<open>
  \<open>String.prototype.trim\<close> removes the code units of the productions WhiteSpace and
  LineTerminator from both ends.
\<close>

definition isWhiteSpace :: "jschar \<Rightarrow> bool" where
  "isWhiteSpace c \<longleftrightarrow>
     c = 0x09 \<or> c = 0x0A \<or> c = 0x0B \<or> c = 0x0C \<or> c = 0x0D \<or> c = 0x20 \<or> c = 0xA0 \<or>
     c = 0x1680 \<or> (0x2000 \<le> c \<and> c \<le> 0x200A) \<or> c = 0x2028 \<or> c = 0x2029 \<or>
     c = 0x202F \<or> c = 0x205F \<or> c = 0x3000 \<or> c = 0xFEFF"

text \<open>The dot of a regular expression (no \<open>s\<close> flag) matches every code unit but these.\<close>

definition isLineTerminator :: "jschar \<Rightarrow> bool" where
  "isLineTerminator c \<longleftrightarrow> c = 0x0A \<or> c = 0x0D \<or> c = 0x2028 \<or> c = 0x2029"

definition trim :: "jsstring \<Rightarrow> jsstring" where
  "trim s = rev (dropWhile isWhiteSpace (rev (dropWhile isWhiteSpace s)))"

text \<open>
  \<open>s.split(sep)\<close> for a one-character separator: the pieces between the separators,
  always at least one piece.
\<close>

fun split :: "jschar \<Rightarrow> jsstring \<Rightarrow> jsstring list" where
  "split sep [] = [[]]"
| "split sep (c # cs) =
     (if c = sep then [] # split sep cs
      else (case split sep cs of w # ws \<Rightarrow> (c # w) # ws | [] \<Rightarrow> [[c]]))"

text \<open>
  \<open>toLowerCase\<close> on the letters A to Z.  The source only compares the lowered string with
  \<open>'true'\<close> and \<open>'false'\<close>; no code unit outside A to Z is lowered by the host to one of
  the letters of these two words, so the comparisons are decided by this mapping.
\<close>

definition toLowerCase :: "jsstring \<Rightarrow> jsstring" where
  "toLowerCase s = map (\<lambda>c. if 0x41 \<le> c \<and> c \<le> 0x5A then c + 0x20 else c) s"

definition startsWith :: "jsstring \<Rightarrow> jschar \<Rightarrow> bool" where
  "startsWith s c = (case s of [] \<Rightarrow> False | x # _ \<Rightarrow> x = c)"

section \<open>Numbers\<close>

text \<open>
  \<open>Number(s)\<close> follows the grammar StringNumericLiteral.  A number of the model is the
  mathematical value of the literal, taken to zero or to an infinity where the nearest
  double is zero or infinite; the rounding of the remaining values to 53 bits is not
  modelled (the program never compares or computes with numbers).
\<close>

datatype jsnum = Finite rat | PosInfinity | NegInfinity | NaN

definition of_MV :: "rat \<Rightarrow> jsnum" where
  "of_MV q =
     (if \<bar>q\<bar> \<le> 1 / 2 ^ 1075 then Finite 0
      else if 2 ^ 1024 - 2 ^ 970 \<le> q then PosInfinity
      else if q \<le> - (2 ^ 1024 - 2 ^ 970) then NegInfinity
      else Finite q)"

definition negate :: "jsnum \<Rightarrow> jsnum" where
  "negate n = (case n of Finite q \<Rightarrow> Finite (- q) | PosInfinity \<Rightarrow> NegInfinity
                | NegInfinity \<Rightarrow> PosInfinity | NaN \<Rightarrow> NaN)"

definition isNaN :: "jsnum \<Rightarrow> bool" where
  "isNaN n \<longleftrightarrow> n = NaN"

definition digitValue :: "jschar \<Rightarrow> nat" where
  "digitValue c =
     (if 0x30 \<le> c \<and> c \<le> 0x39 then unat c - 48
      else if 0x61 \<le> c \<and> c \<le> 0x66 then unat c - 87
      else if 0x41 \<le> c \<and> c \<le> 0x46 then unat c - 55
      else 16)"

definition isDigitOf :: "nat \<Rightarrow> jschar \<Rightarrow> bool" where
  "isDigitOf base c \<longleftrightarrow> digitValue c < base"

definition numeralValue :: "nat \<Rightarrow> jsstring \<Rightarrow> nat" where
  "numeralValue base s = foldl (\<lambda>a c. a * base + digitValue c) 0 s"

text \<open>ExponentPart, optional: \<open>e\<close> or \<open>E\<close>, an optional sign, at least one digit.\<close>

definition exponentPart :: "jsstring \<Rightarrow> int option" where
  "exponentPart s =
     (case s of
        [] \<Rightarrow> Some 0
      | e # t \<Rightarrow>
          if e = 0x65 \<or> e = 0x45 then
            (let neg = startsWith t 0x2D;
                 ds = (if startsWith t 0x2D \<or> startsWith t 0x2B then tl t else t)
             in if ds \<noteq> [] \<and> list_all (isDigitOf 10) ds
                then Some (if neg then - int (numeralValue 10 ds) else int (numeralValue 10 ds))
                else None)
          else None)"

definition scale10 :: "rat \<Rightarrow> int \<Rightarrow> rat" where
  "scale10 m e = (if 0 \<le> e then m * 10 ^ nat e else m / 10 ^ nat (- e))"

text \<open>
  StrUnsignedDecimalLiteral: \<open>Infinity\<close>, or digits with an optional fraction, or a
  fraction alone, each with an optional exponent.
\<close>

definition unsignedDecimal :: "jsstring \<Rightarrow> jsnum" where
  "unsignedDecimal s =
     (if s = js ''Infinity'' then PosInfinity
      else
        let ip = takeWhile (isDigitOf 10) s;
            r1 = dropWhile (isDigitOf 10) s;
            dot = startsWith r1 0x2E;
            fp = (if dot then takeWhile (isDigitOf 10) (tl r1) else []);
            r2 = (if dot then dropWhile (isDigitOf 10) (tl r1) else r1)
        in if ip = [] \<and> fp = [] then NaN
           else (case exponentPart r2 of
                   None \<Rightarrow> NaN
                 | Some e \<Rightarrow>
                     of_MV (scale10 (of_nat (numeralValue 10 ip)
                              + of_nat (numeralValue 10 fp) / 10 ^ length fp) e)))"

text \<open>NonDecimalIntegerLiteral: \<open>0x\<close>, \<open>0o\<close>, \<open>0b\<close> (either case), at least one digit, no sign.\<close>

definition radixOf :: "jsstring \<Rightarrow> nat option" where
  "radixOf s =
     (case s of
        z # x # _ \<Rightarrow>
          if z \<noteq> 0x30 then None
          else if x = 0x78 \<or> x = 0x58 then Some 16
          else if x = 0x6F \<or> x = 0x4F then Some 8
          else if x = 0x62 \<or> x = 0x42 then Some 2
          else None
      | _ \<Rightarrow> None)"

definition Number :: "jsstring \<Rightarrow> jsnum" where
  "Number s =
     (let t = trim s in
      if t = [] then Finite 0
      else (case radixOf t of
              Some base \<Rightarrow>
                (let ds = drop 2 t
                 in if ds \<noteq> [] \<and> list_all (isDigitOf base) ds
                    then of_MV (of_nat (numeralValue base ds)) else NaN)
            | None \<Rightarrow>
                if startsWith t 0x2B then unsignedDecimal (tl t)
                else if startsWith t 0x2D then negate (unsignedDecimal (tl t))
                else unsignedDecimal t))"

section \<open>The value inferencer\<close>

text \<open>
  The value \<open>parseValue\<close> returns: a boolean, a number, a string, or a new array of such
  values.
\<close>

datatype pvalue = PBool bool | PNum jsnum | PStr jsstring | PArr "pvalue list"

text \<open>
  \<open>trimmed.replace(/^["'](.+)["']$/, '$1')\<close>: a first and a last code unit that are each a
  quote (not necessarily the same one), around one or more code units that the dot
  matches; otherwise the string is left as it is.
\<close>

definition isQuote :: "jschar \<Rightarrow> bool" where
  "isQuote c \<longleftrightarrow> c = 0x22 \<or> c = 0x27"

definition stripQuotes :: "jsstring \<Rightarrow> jsstring" where
  "stripQuotes s =
     (if 3 \<le> length s \<and> isQuote (hd s) \<and> isQuote (last s)
         \<and> \<not> list_ex isLineTerminator (butlast (tl s))
      then butlast (tl s) else s)"

text \<open>
  The inference of the source, rule by rule in its order: boolean, number, array, string.
\<close>

function parseValue :: "jsstring \<Rightarrow> pvalue" where
  "parseValue value =
     (let trimmed = trim value in
      if toLowerCase trimmed = js ''true'' then PBool True
      else if toLowerCase trimmed = js ''false'' then PBool False
      else if \<not> isNaN (Number trimmed) then PNum (Number trimmed)
      else if 0x2C \<in> set trimmed
           then PArr (map (\<lambda>v. parseValue (trim v)) (split 0x2C trimmed))
      else PStr (stripQuotes trimmed))"
  by pat_completeness auto
termination
proof (relation "measure length")
  show "wf (measure length)" by simp
next
  fix "value" :: jsstring and trimmed piece
  assume trimmed: "trimmed = trim value" and comma: "0x2C \<in> set trimmed"
    and piece: "piece \<in> set (split 0x2C trimmed)"
  have shorter: "length (trim s) \<le> length s" for s
  proof -
    have "length (dropWhile isWhiteSpace (rev (dropWhile isWhiteSpace s)))
            \<le> length (rev (dropWhile isWhiteSpace s))"
      by (rule length_dropWhile_le)
    also have "\<dots> \<le> length s"
      by (simp add: length_dropWhile_le)
    finally show ?thesis
      by (simp add: trim_def)
  qed
  have nonempty: "split sep s \<noteq> []" for sep s
    by (induction s) (auto split: list.splits)
  have le: "p \<in> set (split sep s) \<Longrightarrow> length p \<le> length s" for p sep s
    by (induction s arbitrary: p) (fastforce split: if_splits list.splits)+
  have less: "sep \<in> set s \<Longrightarrow> p \<in> set (split sep s) \<Longrightarrow> length p < length s" for p sep s
  proof (induction s arbitrary: p)
    case Nil
    then show ?case by simp
  next
    case (Cons c cs)
    show ?case
    proof (cases "c = sep")
      case True
      with Cons.prems(2) have "p = [] \<or> p \<in> set (split sep cs)" by simp
      then show ?thesis using le [of p sep cs] by fastforce
    next
      case False
      with Cons.prems(1) have mem: "sep \<in> set cs" by simp
      obtain w ws where ws: "split sep cs = w # ws"
        using nonempty [of sep cs] by (cases "split sep cs") auto
      with False Cons.prems(2) have "p = c # w \<or> p \<in> set ws" by simp
      then show ?thesis
        using Cons.IH [OF mem, of w] Cons.IH [OF mem, of p] ws by fastforce
    qed
  qed
  have "length piece < length (trim value)"
    using less comma piece trimmed by blast
  moreover have "length (trim piece) \<le> length piece" by (rule shorter)
  moreover have "length (trim value) \<le> length value" by (rule shorter)
  ultimately show "(trim piece, value) \<in> measure length" by simp
qed

declare parseValue.simps [simp del]

section \<open>The store\<close>

text \<open>
  Objects and arrays are mutable and shared by reference, so they live in a store: a list
  of objects, an address being an index, a new object being appended.  An object is its
  own enumerable properties in insertion order; arrays are objects whose keys are their
  indices.  Members that the host lets objects inherit from prototypes (and the
  \<open>length\<close> of an array) are no properties of this model.
\<close>

type_synonym addr = nat

datatype val = VBool bool | VNum jsnum | VStr jsstring | VRef addr

datatype obj = Obj (isArray: bool) (props: "(jsstring \<times> val) list")

type_synonym heap = "obj list"

datatype zod_issue = Required "jsstring list" | InvalidType "jsstring list"

text \<open>
  What the code can throw: the two faults of the host, the \<open>Error\<close> that \<open>parseContent\<close>
  builds from the issues of a failed validation, and any other \<open>Error\<close> with its message
  (as the fetch throws).
\<close>

datatype error = TypeError | RangeError | InvalidConfiguration "zod_issue list" | Error string

text \<open>A call returns or throws, and leaves a store behind in both cases.\<close>

type_synonym 'a result = "(error + 'a) \<times> heap"

fun truthy :: "val \<Rightarrow> bool" where
  "truthy (VBool b) = b"
| "truthy (VNum n) = (n \<noteq> Finite 0 \<and> n \<noteq> NaN)"
| "truthy (VStr s) = (s \<noteq> [])"
| "truthy (VRef a) = True"

text \<open>
  The properties of the object at an address.  Every reference the program holds is to an
  object of the store; an address outside the store has no properties.
\<close>

definition propsOf :: "heap \<Rightarrow> addr \<Rightarrow> (jsstring \<times> val) list" where
  "propsOf h a = (if a < length h then props (h ! a) else [])"

definition isArrayAt :: "heap \<Rightarrow> addr \<Rightarrow> bool" where
  "isArrayAt h a \<longleftrightarrow> a < length h \<and> isArray (h ! a)"

definition getProp :: "heap \<Rightarrow> addr \<Rightarrow> jsstring \<Rightarrow> val option" where
  "getProp h a k = map_of (propsOf h a) k"

definition setProp :: "heap \<Rightarrow> addr \<Rightarrow> jsstring \<Rightarrow> val \<Rightarrow> heap" where
  "setProp h a k v = h[a := Obj (isArray (h ! a)) (AList.update k v (props (h ! a)))]"

text \<open>The key of an array index: its decimal digits.\<close>

fun indexKey :: "nat \<Rightarrow> jsstring" where
  "indexKey n = (if n < 10 then [of_nat (48 + n)]
                 else indexKey (n div 10) @ [of_nat (48 + n mod 10)])"

declare indexKey.simps [simp del]

text \<open>
  A value of \<open>parseValue\<close> in the store: an array is a new object, created before its
  elements are filled in.
\<close>

fun storeValue :: "pvalue \<Rightarrow> heap \<Rightarrow> val \<times> heap"
  and storeElements :: "addr \<Rightarrow> nat \<Rightarrow> pvalue list \<Rightarrow> heap \<Rightarrow> heap" where
  "storeValue (PBool b) h = (VBool b, h)"
| "storeValue (PNum n) h = (VNum n, h)"
| "storeValue (PStr s) h = (VStr s, h)"
| "storeValue (PArr xs) h = (VRef (length h), storeElements (length h) 0 xs (h @ [Obj True []]))"
| "storeElements a i [] h = h"
| "storeElements a i (x # xs) h =
     (case storeValue x h of (v, h') \<Rightarrow> storeElements a (Suc i) xs (setProp h' a (indexKey i) v))"

section \<open>The path assigner\<close>

text \<open>
  \<open>current[key] = value\<close> in strict code (the source is a module): a new or changed own
  property when \<open>current\<close> is an object, a \<open>TypeError\<close> when it is a primitive value.
\<close>

definition assign :: "val \<Rightarrow> jsstring \<Rightarrow> val \<Rightarrow> heap \<Rightarrow> unit result" where
  "assign current key v h =
     (case current of VRef a \<Rightarrow> (Inr (), setProp h a key v) | _ \<Rightarrow> (Inl TypeError, h))"

text \<open>
  The loop of \<open>setNestedValue\<close> over all segments but the last, then the assignment at the
  last one.  At each segment \<open>current[key] = current[key] || {}\<close> keeps a truthy value and
  puts a new empty object in the place of a missing or falsy one; \<open>current\<close> moves to the
  value kept or created, whatever it is.  Of an empty path the last segment is
  \<open>undefined\<close>, which as a key reads \<open>'undefined'\<close>.
\<close>

fun walk :: "val \<Rightarrow> jsstring list \<Rightarrow> val \<Rightarrow> heap \<Rightarrow> unit result" where
  "walk current [] v h = assign current (js ''undefined'') v h"
| "walk current [lastKey] v h = assign current lastKey v h"
| "walk current (key # rest) v h =
     (case current of
        VRef a \<Rightarrow>
          (case getProp h a key of
             None \<Rightarrow> walk (VRef (length h)) rest v (setProp (h @ [Obj False []]) a key (VRef (length h)))
           | Some x \<Rightarrow>
               if truthy x then walk x rest v h
               else walk (VRef (length h)) rest v (setProp (h @ [Obj False []]) a key (VRef (length h))))
      | _ \<Rightarrow> (Inl TypeError, h))"

definition setNestedValue :: "addr \<Rightarrow> jsstring list \<Rightarrow> val \<Rightarrow> heap \<Rightarrow> unit result" where
  "setNestedValue obj path v h = walk (VRef obj) path v h"

section \<open>The line lexer\<close>

text \<open>
  \<open>/^\[(.+)\]$/\<close>: an opening bracket, one or more code units that the dot matches, a
  closing bracket at the very end.  The group is what lies between the two.
\<close>

definition sectionMatch :: "jsstring \<Rightarrow> jsstring option" where
  "sectionMatch s =
     (if 3 \<le> length s \<and> hd s = 0x5B \<and> last s = 0x5D
         \<and> \<not> list_ex isLineTerminator (butlast (tl s))
      then Some (butlast (tl s)) else None)"

text \<open>
  \<open>/^(.+?)=(.+)$/\<close>: the lazy first group takes the shortest non-empty prefix that is
  followed by an equals sign with at least one code unit after it; both groups consist
  of code units that the dot matches, so a line terminator anywhere prevents the match.
\<close>

fun kvSearch :: "jsstring \<Rightarrow> jsstring \<Rightarrow> (jsstring \<times> jsstring) option" where
  "kvSearch key [] = None"
| "kvSearch key (c # cs) =
     (if c = 0x3D \<and> key \<noteq> [] \<and> cs \<noteq> [] then Some (key, cs)
      else kvSearch (key @ [c]) cs)"

definition kvMatch :: "jsstring \<Rightarrow> (jsstring \<times> jsstring) option" where
  "kvMatch s = (if list_ex isLineTerminator s then None else kvSearch [] s)"

text \<open>
  The classification of a line by the loop of \<open>parseContent\<close>: skipped when its
  trimmed form is empty or starts with \<open>#\<close>, else a section header, else a key-value
  pair, else not recognised.
\<close>

datatype token = Skipped | Header jsstring | Pair jsstring jsstring | Unrecognised

definition lexLine :: "jsstring \<Rightarrow> token" where
  "lexLine line =
     (let trimmedLine = trim line in
      if trimmedLine = [] \<or> startsWith trimmedLine 0x23 then Skipped
      else (case sectionMatch trimmedLine of
              Some name \<Rightarrow> Header name
            | None \<Rightarrow>
                (case kvMatch trimmedLine of
                   Some (key, value) \<Rightarrow> Pair key value
                 | None \<Rightarrow> Unrecognised)))"

text \<open>
  The branch of a key-value pair.  The arguments of \<open>setNestedValue\<close> are evaluated before
  the call, so the value is in the store before the path is walked.
\<close>

definition assignPair :: "jsstring \<Rightarrow> jsstring \<Rightarrow> jsstring \<Rightarrow> addr \<Rightarrow> heap \<Rightarrow> unit result" where
  "assignPair currentSection key value configObj h =
     (let keyPath = (if currentSection \<noteq> [] then currentSection @ 0x2E # key else key)
      in case storeValue (parseValue value) h of
           (v, h1) \<Rightarrow> setNestedValue configObj (split 0x2E keyPath) v h1)"

text \<open>The body of the loop: it returns the current section for the next line.\<close>

definition parseLine :: "jsstring \<Rightarrow> jsstring \<Rightarrow> addr \<Rightarrow> heap \<Rightarrow> jsstring result" where
  "parseLine line currentSection configObj h =
     (case lexLine line of
        Skipped \<Rightarrow> (Inr currentSection, h)
      | Header name \<Rightarrow> (Inr name, h)
      | Pair key value \<Rightarrow>
          (case assignPair currentSection key value configObj h of
             (Inl e, h1) \<Rightarrow> (Inl e, h1)
           | (Inr u, h1) \<Rightarrow> (Inr currentSection, h1))
      | Unrecognised \<Rightarrow> (Inr currentSection, h))"

fun parseLines :: "jsstring list \<Rightarrow> jsstring \<Rightarrow> addr \<Rightarrow> heap \<Rightarrow> unit result" where
  "parseLines [] currentSection configObj h = (Inr (), h)"
| "parseLines (line # lines) currentSection configObj h =
     (case parseLine line currentSection configObj h of
        (Inl e, h1) \<Rightarrow> (Inl e, h1)
      | (Inr section, h1) \<Rightarrow> parseLines lines section configObj h1)"

section \<open>The deep merger\<close>

text \<open>
  \<open>{ ...target }\<close>: a new plain object with the own properties of \<open>target\<close>; those of a
  string are its code units under their indices, a boolean or a number has none.
\<close>

definition stringProps :: "jsstring \<Rightarrow> (jsstring \<times> val) list" where
  "stringProps s = map (\<lambda>i. (indexKey i, VStr [s ! i])) [0 ..< length s]"

definition ownProps :: "heap \<Rightarrow> val \<Rightarrow> (jsstring \<times> val) list" where
  "ownProps h v = (case v of VRef a \<Rightarrow> propsOf h a | VStr s \<Rightarrow> stringProps s | _ \<Rightarrow> [])"

text \<open>
  \<open>deepMerge\<close> and its loop \<open>for (const key in source)\<close>.  The first argument counts the
  frames left on the call stack; a call that finds none throws \<open>RangeError\<close>.  In the loop,
  \<open>source[key] instanceof Object\<close> holds of references only, and \<open>key in target\<close> throws
  \<open>TypeError\<close> when \<open>target\<close> is a primitive value.
\<close>

fun deepMerge :: "nat \<Rightarrow> val \<Rightarrow> val \<Rightarrow> heap \<Rightarrow> val result"
  and mergeKeys :: "nat \<Rightarrow> val \<Rightarrow> val \<Rightarrow> jsstring list \<Rightarrow> addr \<Rightarrow> heap \<Rightarrow> val result" where
  "deepMerge 0 target source h = (Inl RangeError, h)"
| "deepMerge (Suc depth) target source h =
     mergeKeys depth target source (map fst (ownProps h source)) (length h)
       (h @ [Obj False (ownProps h target)])"
| "mergeKeys depth target source [] output h = (Inr (VRef output), h)"
| "mergeKeys depth target source (key # keys) output h =
     (case map_of (ownProps h source) key of
        Some (VRef s) \<Rightarrow>
          (case target of
             VRef t \<Rightarrow>
               (case getProp h t key of
                  Some tv \<Rightarrow>
                    (case deepMerge depth tv (VRef s) h of
                       (Inl e, h1) \<Rightarrow> (Inl e, h1)
                     | (Inr r, h1) \<Rightarrow> mergeKeys depth target source keys output (setProp h1 output key r))
                | None \<Rightarrow> mergeKeys depth target source keys output (setProp h output key (VRef s)))
           | _ \<Rightarrow> (Inl TypeError, h))
      | Some sv \<Rightarrow> mergeKeys depth target source keys output (setProp h output key sv)
      | None \<Rightarrow> mergeKeys depth target source keys output h)"

section \<open>The schema\<close>

text \<open>
  The validators of the schema library, as far as the schema of the source uses them.
  A validator takes the path of the value, the value (or none, for \<open>undefined\<close>) and the
  store, and returns the parsed value or its issues.  \<open>z.object\<close> accepts a plain object,
  validates the declared keys (all of them, collecting the issues), drops the others and
  returns a new object when every declared key is valid.
\<close>

type_synonym validator = "jsstring list \<Rightarrow> val option \<Rightarrow> heap \<Rightarrow> (zod_issue list + val) \<times> heap"

definition z_boolean :: validator where
  "z_boolean path v h =
     (case v of
        None \<Rightarrow> (Inl [Required path], h)
      | Some (VBool b) \<Rightarrow> (Inr (VBool b), h)
      | Some _ \<Rightarrow> (Inl [InvalidType path], h))"

definition z_default :: "validator \<Rightarrow> val \<Rightarrow> validator" where
  "z_default inner d path v h = inner path (case v of None \<Rightarrow> Some d | Some x \<Rightarrow> Some x) h"

fun z_fields :: "(jsstring \<times> validator) list \<Rightarrow> jsstring list \<Rightarrow> addr \<Rightarrow> heap
                   \<Rightarrow> (zod_issue list + (jsstring \<times> val) list) \<times> heap" where
  "z_fields [] path a h = (Inr [], h)"
| "z_fields ((k, p) # shape) path a h =
     (case p (path @ [k]) (getProp h a k) h of
        (r, h1) \<Rightarrow>
          (case z_fields shape path a h1 of
             (others, h2) \<Rightarrow>
               (case r of
                  Inl found \<Rightarrow>
                    (Inl (found @ (case others of Inl more \<Rightarrow> more | Inr parsed \<Rightarrow> [])), h2)
                | Inr v \<Rightarrow>
                    (case others of
                       Inl more \<Rightarrow> (Inl more, h2)
                     | Inr parsed \<Rightarrow> (Inr ((k, v) # parsed), h2)))))"

definition z_object :: "(jsstring \<times> validator) list \<Rightarrow> validator" where
  "z_object shape path v h =
     (case v of
        None \<Rightarrow> (Inl [Required path], h)
      | Some (VRef a) \<Rightarrow>
          if isArrayAt h a then (Inl [InvalidType path], h)
          else (case z_fields shape path a h of
                  (Inl issues, h1) \<Rightarrow> (Inl issues, h1)
                | (Inr parsed, h1) \<Rightarrow> (Inr (VRef (length h1)), h1 @ [Obj False parsed]))
      | Some _ \<Rightarrow> (Inl [InvalidType path], h))"

definition configSchema :: validator where
  "configSchema =
     z_object
       [(js ''github'',
           z_object
             [(js ''commits'',
                 z_object [(js ''postToBluesky'', z_default z_boolean (VBool True))])]),
        (js ''stats'',
           z_object [(js ''enable'', z_default z_boolean (VBool True))])]"

section \<open>The default configuration and the parser\<close>

text \<open>
  \<open>defaultConfig\<close> is created once, when the module is loaded: the object and its three
  nested objects are the first four objects of the store.
\<close>

definition defaultConfig :: addr where
  "defaultConfig = 0"

definition initialHeap :: heap where
  "initialHeap =
     [Obj False [(js ''github'', VRef 1), (js ''stats'', VRef 3)],
      Obj False [(js ''commits'', VRef 2)],
      Obj False [(js ''postToBluesky'', VBool True)],
      Obj False [(js ''enable'', VBool True)]]"

text \<open>
  \<open>parseContent\<close>: a new \<open>configObj\<close>, the loop over the lines, then in the \<open>try\<close> block the
  merge with the defaults and the validation.  A failed validation is thrown again as an
  \<open>Error\<close> made of its issues; every other fault passes unchanged.
\<close>

definition parseContent :: "nat \<Rightarrow> jsstring \<Rightarrow> heap \<Rightarrow> val result" where
  "parseContent depth content h =
     (case parseLines (split 0x0A content) [] (length h) (h @ [Obj False []]) of
        (Inl e, h1) \<Rightarrow> (Inl e, h1)
      | (Inr u, h1) \<Rightarrow>
          (case deepMerge depth (VRef defaultConfig) (VRef (length h)) h1 of
             (Inl e, h2) \<Rightarrow> (Inl e, h2)
           | (Inr mergedConfig, h2) \<Rightarrow>
               (case configSchema [] (Some mergedConfig) h2 of
                  (Inl issues, h3) \<Rightarrow> (Inl (InvalidConfiguration issues), h3)
                | (Inr config, h3) \<Rightarrow> (Inr config, h3))))"

text \<open>The class: its field \<open>config\<close> is the shared default object itself.\<close>

record ConfigParser =
  config :: val

definition newConfigParser :: ConfigParser where
  "newConfigParser = \<lparr>config = VRef defaultConfig\<rparr>"

definition getConfig :: "ConfigParser \<Rightarrow> val" where
  "getConfig parser = config parser"

definition parseFile :: "nat \<Rightarrow> jsstring \<Rightarrow> heap \<Rightarrow> val result" where
  "parseFile depth content h = parseContent depth content h"

section \<open>The resolver\<close>

text \<open>
  \<open>createConfig\<close>.  The fetch is the environment's: \<open>getFileContent\<close> called with the
  repository path and the file path returns the text or throws.  Every fault inside the
  \<open>try\<close> block ends in the \<open>catch\<close> clause, which returns the parser's configuration.
\<close>

definition createConfig ::
  "nat \<Rightarrow> (jsstring \<Rightarrow> jsstring \<Rightarrow> error + jsstring) \<Rightarrow> jsstring \<Rightarrow> jsstring \<Rightarrow> heap \<Rightarrow> val result" where
  "createConfig depth getFileContent repository filePath h =
     (let parser = newConfigParser in
      case split 0x2F repository of
        owner # repo # unused \<Rightarrow>
          if owner = [] \<or> repo = [] then (Inr (getConfig parser), h)
          else
            (case getFileContent (owner @ 0x2F # repo) filePath of
               Inl e \<Rightarrow> (Inr (getConfig parser), h)
             | Inr content \<Rightarrow>
                 (case parseFile depth content h of
                    (Inl e, h1) \<Rightarrow> (Inr (getConfig parser), h1)
                  | (Inr parsed, h1) \<Rightarrow> (Inr parsed, h1)))
      | _ \<Rightarrow> (Inr (getConfig parser), h))"

text \<open>Reading a configuration: the value found by following a path of keys.\<close>

fun lookupPath :: "heap \<Rightarrow> val \<Rightarrow> jsstring list \<Rightarrow> val option" where
  "lookupPath h v [] = Some v"
| "lookupPath h (VRef a) (k # ks) =
     (case getProp h a k of None \<Rightarrow> None | Some x \<Rightarrow> lookupPath h x ks)"
| "lookupPath h v (k # ks) = None"

section \<open>Observations used by the properties\<close>

text \<open>The default configuration is in place: the first four objects are as created.\<close>

definition defaultIntact :: "heap \<Rightarrow> bool" where
  "defaultIntact h \<longleftrightarrow> take 4 h = initialHeap"

text \<open>
  The first two stages of \<open>parseContent\<close> alone: the lines are parsed into a new
  \<open>configObj\<close>, which is merged with the defaults.
\<close>

definition mergedConfig :: "nat \<Rightarrow> jsstring \<Rightarrow> heap \<Rightarrow> val result" where
  "mergedConfig depth content h =
     (case parseLines (split 0x0A content) [] (length h) (h @ [Obj False []]) of
        (Inl e, h1) \<Rightarrow> (Inl e, h1)
      | (Inr u, h1) \<Rightarrow> deepMerge depth (VRef defaultConfig) (VRef (length h)) h1)"

text \<open>
  The repository path that \<open>createConfig\<close> fetches from, when the identifier has a
  non-empty owner and a non-empty name around the first slash.
\<close>

definition repositoryPath :: "jsstring \<Rightarrow> jsstring option" where
  "repositoryPath repository =
     (case split 0x2F repository of
        owner # repo # unused \<Rightarrow>
          if owner = [] \<or> repo = [] then None else Some (owner @ 0x2F # repo)
      | _ \<Rightarrow> None)"

text \<open>A fetch that succeeds with a given text.\<close>

definition fetched :: "jsstring \<Rightarrow> jsstring \<Rightarrow> jsstring \<Rightarrow> error + jsstring" where
  "fetched content repository filePath = Inr content"

text \<open>A fetch that fails.\<close>

definition unreachable :: "jsstring \<Rightarrow> jsstring \<Rightarrow> error + jsstring" where
  "unreachable repository filePath = Inl (Error ''Failed to fetch file'')"




text \<open>
  Frames: \<open>preserves n h h'\<close> says that the store has only grown and its first \<open>n\<close>
  objects are unchanged.  \<open>closed n h\<close> says that the objects from address \<open>n\<close> on refer
  only to objects from address \<open>n\<close> on.
\<close>

definition preserves :: "nat \<Rightarrow> heap \<Rightarrow> heap \<Rightarrow> bool" where
  "preserves n h h' \<longleftrightarrow> length h \<le> length h' \<and> take n h' = take n h"

definition freshVal :: "nat \<Rightarrow> val \<Rightarrow> bool" where
  "freshVal n v = (case v of VRef r \<Rightarrow> n \<le> r | _ \<Rightarrow> True)"

definition closed :: "nat \<Rightarrow> heap \<Rightarrow> bool" where
  "closed n h \<longleftrightarrow>
     (\<forall>a k v. n \<le> a \<and> a < length h \<and> (k, v) \<in> set (props (h ! a)) \<longrightarrow> freshVal n v)"

text \<open>Properties of validators: the store only grows; a result holds a boolean at a path;
  a value that holds something else than a boolean at a path is refused.\<close>

definition growsOnly :: "validator \<Rightarrow> bool" where
  "growsOnly p \<longleftrightarrow> (\<forall>path v h r h'. p path v h = (r, h') \<longrightarrow> preserves (length h) h h')"

definition yieldsBool :: "validator \<Rightarrow> jsstring list \<Rightarrow> bool" where
  "yieldsBool p ks \<longleftrightarrow>
     (\<forall>path v h x h'. p path v h = (Inr x, h') \<longrightarrow> (\<exists>b. lookupPath h' x ks = Some (VBool b)))"

definition wrongAt :: "heap \<Rightarrow> val \<Rightarrow> jsstring list \<Rightarrow> bool" where
  "wrongAt h v ks \<longleftrightarrow> (\<exists>x. lookupPath h v ks = Some x \<and> (\<forall>b. x \<noteq> VBool b))"

definition rejects :: "validator \<Rightarrow> jsstring list \<Rightarrow> bool" where
  "rejects p ks \<longleftrightarrow>
     (\<forall>path x h. wrongAt h x ks \<longrightarrow> (\<exists>issues h'. p path (Some x) h = (Inl issues, h')))"

section \<open>Frames of the store operations\<close>

lemma preserves_refl: "preserves n h h"
  by (simp add: preserves_def)

lemma preserves_trans: "preserves n h h1 \<Longrightarrow> preserves n h1 h2 \<Longrightarrow> preserves n h h2"
  by (simp add: preserves_def)

lemma preserves_mono: "m \<le> n \<Longrightarrow> preserves n h h' \<Longrightarrow> preserves m h h'"
  unfolding preserves_def by (metis min.absorb_iff1 take_take)

lemma preserves_append: "n \<le> length h \<Longrightarrow> preserves n h (h @ ys)"
  by (simp add: preserves_def)

lemma length_setProp: "length (setProp h a k v) = length h"
  by (simp add: setProp_def)

lemma preserves_setProp: "n \<le> a \<Longrightarrow> preserves n h (setProp h a k v)"
  by (simp add: preserves_def setProp_def)

lemma preserves_length: "preserves n h h' \<Longrightarrow> length h \<le> length h'"
  by (simp add: preserves_def)

lemma set_update_subset: "set (AList.update k v ps) \<subseteq> insert (k, v) (set ps)"
  by (induction ps) auto

lemma closed_append:
  "closed n h \<Longrightarrow> (\<forall>(k, v) \<in> set ps. freshVal n v) \<Longrightarrow> closed n (h @ [Obj b ps])"
  unfolding closed_def by (auto simp: nth_append less_Suc_eq)

lemma closed_setProp:
  assumes "closed n h" and "freshVal n v"
  shows "closed n (setProp h a k v)"
  unfolding closed_def
proof (intro allI impI)
  fix b k' v'
  assume *: "n \<le> b \<and> b < length (setProp h a k v) \<and> (k', v') \<in> set (props (setProp h a k v ! b))"
  then have b: "n \<le> b" "b < length h" by (simp_all add: setProp_def)
  show "freshVal n v'"
  proof (cases "b = a")
    case True
    with * b have "(k', v') \<in> set (AList.update k v (props (h ! a)))"
      by (simp add: setProp_def)
    then have "(k', v') = (k, v) \<or> (k', v') \<in> set (props (h ! a))"
      using set_update_subset by fastforce
    then show ?thesis using assms b True unfolding closed_def by blast
  next
    case False
    with * b have "(k', v') \<in> set (props (h ! b))" by (simp add: setProp_def)
    then show ?thesis using assms(1) b unfolding closed_def by blast
  qed
qed

lemma freshVal_mono: "m \<le> n \<Longrightarrow> freshVal n v \<Longrightarrow> freshVal m v"
  by (auto simp: freshVal_def split: val.splits)

lemma storeValue_frame:
  "storeValue pv h = (v, h') \<Longrightarrow> n \<le> length h \<Longrightarrow> closed n h
     \<Longrightarrow> preserves (length h) h h' \<and> closed n h' \<and> freshVal (length h) v"
  "storeElements a i xs h = h'' \<Longrightarrow> n \<le> a \<Longrightarrow> a < length h \<Longrightarrow> closed n h
     \<Longrightarrow> preserves a h h'' \<and> closed n h''"
proof (induction pv h and a i xs h arbitrary: v h' and h'' rule: storeValue_storeElements.induct)
  case (1 b h)
  then show ?case by (auto simp: preserves_refl freshVal_def)
next
  case (2 m h)
  then show ?case by (auto simp: preserves_refl freshVal_def)
next
  case (3 s h)
  then show ?case by (auto simp: preserves_refl freshVal_def)
next
  case (4 xs h)
  let ?h1 = "h @ [Obj True []]"
  have c1: "closed n ?h1" using 4(4) by (simp add: closed_append)
  have "preserves (length h) ?h1 (storeElements (length h) 0 xs ?h1) \<and> closed n (storeElements (length h) 0 xs ?h1)"
    by (rule 4(1)) (use 4(3) c1 in simp_all)
  moreover have "preserves (length h) h ?h1" by (simp add: preserves_append)
  ultimately show ?case using 4(2) by (auto simp: freshVal_def intro: preserves_trans)
next
  case (5 a i h)
  then show ?case by (simp add: preserves_refl)
next
  case (6 a i x xs h)
  obtain v h1 where sv: "storeValue x h = (v, h1)" by (cases "storeValue x h")
  have n: "n \<le> length h" using 6 by simp
  from 6(1) [OF sv n 6(6)]
  have p1: "preserves (length h) h h1" and c1: "closed n h1" and f1: "freshVal (length h) v"
    by simp_all
  let ?h2 = "setProp h1 a (indexKey i) v"
  have fv: "freshVal n v" using f1 n by (rule freshVal_mono [rotated])
  have c2: "closed n ?h2" using c1 fv by (rule closed_setProp)
  have len: "a < length ?h2" using 6(5) p1 by (simp add: length_setProp preserves_def)
  have h'': "h'' = storeElements a (Suc i) xs ?h2" using 6(3) sv by simp
  have "preserves a ?h2 h'' \<and> closed n h''"
    using 6(2) [OF sv [symmetric] h'' [symmetric] 6(4) len c2] .
  moreover have "preserves a h h1" using preserves_mono [OF _ p1, of a] 6(5) by simp
  moreover have "preserves a h1 ?h2" by (simp add: preserves_setProp)
  ultimately show ?case by (blast intro: preserves_trans)
qed

lemma getProp_mem: "getProp h a k = Some x \<Longrightarrow> a < length h \<and> (k, x) \<in> set (props (h ! a))"
  by (auto simp: getProp_def propsOf_def dest: map_of_SomeD split: if_splits)

lemma assign_frame:
  "assign cur k v h = (r, h') \<Longrightarrow> closed n h \<Longrightarrow> freshVal n cur \<Longrightarrow> freshVal n v
     \<Longrightarrow> preserves n h h' \<and> closed n h'"
  by (auto simp: assign_def freshVal_def preserves_refl preserves_setProp closed_setProp split: val.splits)

lemma walk_frame:
  "walk cur path v h = (r, h') \<Longrightarrow> n \<le> length h \<Longrightarrow> closed n h \<Longrightarrow> freshVal n cur
     \<Longrightarrow> freshVal n v \<Longrightarrow> preserves n h h' \<and> closed n h'"
proof (induction cur path v h arbitrary: r h' rule: walk.induct)
  case (1 current v h)
  then show ?case by (simp add: assign_frame)
next
  case (2 current lastKey v h)
  then show ?case by (simp add: assign_frame)
next
  case (3 current key k2 rest v h)
  show ?case
  proof (cases current)
    case (VRef a)
    with "3.prems"(4) have na: "n \<le> a" by (simp add: freshVal_def)
    let ?h1 = "setProp (h @ [Obj False []]) a key (VRef (length h))"
    have fr: "freshVal n (VRef (length h))" using "3.prems"(2) by (simp add: freshVal_def)
    have p1: "preserves n h ?h1"
      using "3.prems"(2) na by (blast intro: preserves_trans preserves_append preserves_setProp)
    have c1: "closed n ?h1"
      using "3.prems"(3) fr by (simp add: closed_append closed_setProp)
    have l1: "n \<le> length ?h1" using "3.prems"(2) by (simp add: length_setProp)
    show ?thesis
    proof (cases "getProp h a key")
      case None
      with VRef "3.prems"(1) have w: "walk (VRef (length h)) (k2 # rest) v ?h1 = (r, h')" by simp
      from "3.IH"(1) [OF VRef None w l1 c1 fr "3.prems"(5)] p1 show ?thesis
        by (blast intro: preserves_trans)
    next
      case (Some x)
      show ?thesis
      proof (cases "truthy x")
        case True
        with VRef Some "3.prems"(1) have w: "walk x (k2 # rest) v h = (r, h')" by simp
        have "freshVal n x"
          using getProp_mem [OF Some] "3.prems"(3) na unfolding closed_def by blast
        from "3.IH"(2) [OF VRef Some True w "3.prems"(2) "3.prems"(3) this "3.prems"(5)] show ?thesis .
      next
        case False
        with VRef Some "3.prems"(1) have w: "walk (VRef (length h)) (k2 # rest) v ?h1 = (r, h')" by simp
        from "3.IH"(3) [OF VRef Some False w l1 c1 fr "3.prems"(5)] p1 show ?thesis
          by (blast intro: preserves_trans)
      qed
    qed
  qed (use "3.prems" in \<open>auto simp: preserves_refl\<close>)
qed

lemma assignPair_frame:
  assumes "assignPair sec key value obj h = (r, h')" and "n \<le> length h" and "closed n h" and "n \<le> obj"
  shows "preserves n h h' \<and> closed n h'"
proof -
  obtain v h1 where sv: "storeValue (parseValue value) h = (v, h1)"
    by (cases "storeValue (parseValue value) h")
  from storeValue_frame(1) [OF sv assms(2,3)]
  have p1: "preserves (length h) h h1" and c1: "closed n h1" and f1: "freshVal (length h) v"
    by simp_all
  have fv: "freshVal n v" using f1 assms(2) by (rule freshVal_mono [rotated])
  have l1: "n \<le> length h1" using p1 assms(2) by (simp add: preserves_def)
  obtain path where w: "walk (VRef obj) path v h1 = (r, h')"
    using assms(1) sv by (simp add: assignPair_def setNestedValue_def Let_def)
  have "freshVal n (VRef obj)" using assms(4) by (simp add: freshVal_def)
  from walk_frame [OF w l1 c1 this fv] preserves_mono [OF assms(2) p1]
  show ?thesis by (blast intro: preserves_trans)
qed

lemma parseLine_frame:
  assumes "parseLine line sec obj h = (r, h')" and "n \<le> length h" and "closed n h" and "n \<le> obj"
  shows "preserves n h h' \<and> closed n h'"
proof (cases "lexLine line")
  case (Pair key val)
  obtain r1 h1 where ap: "assignPair sec key val obj h = (r1, h1)"
    by (cases "assignPair sec key val obj h")
  with assms(1) Pair have "h' = h1"
    by (auto simp: parseLine_def split: sum.splits)
  with assignPair_frame [OF ap assms(2,3,4)] show ?thesis by simp
qed (use assms in \<open>auto simp: parseLine_def preserves_refl\<close>)

lemma parseLines_frame:
  "parseLines lines sec obj h = (r, h') \<Longrightarrow> n \<le> length h \<Longrightarrow> closed n h \<Longrightarrow> n \<le> obj
     \<Longrightarrow> preserves n h h' \<and> closed n h'"
proof (induction lines arbitrary: sec h)
  case Nil
  then show ?case by (simp add: preserves_refl)
next
  case (Cons line lines)
  obtain r1 h1 where pl: "parseLine line sec obj h = (r1, h1)"
    by (cases "parseLine line sec obj h")
  from parseLine_frame [OF pl Cons.prems(2,3,4)]
  have p1: "preserves n h h1" and c1: "closed n h1" by simp_all
  show ?case
  proof (cases r1)
    case (Inl e)
    with Cons.prems(1) pl p1 c1 show ?thesis by simp
  next
    case (Inr sec')
    with Cons.prems(1) pl have rec: "parseLines lines sec' obj h1 = (r, h')" by simp
    have "n \<le> length h1" using p1 Cons.prems(2) by (simp add: preserves_def)
    from Cons.IH [OF rec this c1 Cons.prems(4)] p1 show ?thesis
      by (blast intro: preserves_trans)
  qed
qed

lemma deepMerge_frame:
  "deepMerge d t s h = (r, h') \<Longrightarrow>
     preserves (length h) h h' \<and> (\<forall>x. r = Inr x \<longrightarrow> x = VRef (length h) \<and> length h < length h')"
  "mergeKeys d t s keys out h = (r, h') \<Longrightarrow> m \<le> out \<Longrightarrow> m \<le> length h \<Longrightarrow>
     preserves m h h' \<and> (\<forall>x. r = Inr x \<longrightarrow> x = VRef out)"
proof (induction d t s h and d t s keys out h arbitrary: r h' and r h' m rule: deepMerge_mergeKeys.induct)
  case (1 target source h)
  then show ?case by (auto simp: preserves_refl)
next
  case (2 depth target source h)
  let ?h1 = "h @ [Obj False (ownProps h target)]"
  from 2(2) have mk: "mergeKeys depth target source (map fst (ownProps h source)) (length h) ?h1 = (r, h')"
    by simp
  from 2(1) [OF mk, of "length h"]
  have "preserves (length h) ?h1 h'" and res: "\<forall>x. r = Inr x \<longrightarrow> x = VRef (length h)" by simp_all
  moreover have "preserves (length h) h ?h1" by (simp add: preserves_append)
  ultimately have p: "preserves (length h) h h'" by (blast intro: preserves_trans)
  have "length ?h1 \<le> length h'" using \<open>preserves (length h) ?h1 h'\<close> by (simp add: preserves_def)
  then have "length h < length h'" by simp
  with p res show ?case by simp
next
  case (3 depth target source out h)
  then show ?case by (auto simp: preserves_refl)
next
  case (4 depth target source key keys out h)
  note prems = "4.prems"
  show ?case
  proof (cases "map_of (ownProps h source) key")
    case None
    with prems(1) have "mergeKeys depth target source keys out h = (r, h')" by simp
    from "4.IH"(1) [OF None this prems(2,3)] show ?thesis .
  next
    case (Some sv)
    let ?h1 = "setProp h out key sv"
    have p1: "preserves m h ?h1" using prems(2) by (simp add: preserves_setProp)
    have l1: "m \<le> length ?h1" using prems(3) by (simp add: length_setProp)
    show ?thesis
    proof (cases sv)
      case (VBool b)
      with Some prems(1) have "mergeKeys depth target source keys out ?h1 = (r, h')" by simp
      then show ?thesis
        using "4.IH"(2) [OF Some VBool, of r h' m] prems(2) l1 p1 unfolding VBool
        by (blast intro: preserves_trans)
    next
      case (VNum x)
      with Some prems(1) have "mergeKeys depth target source keys out ?h1 = (r, h')" by simp
      then show ?thesis
        using "4.IH"(3) [OF Some VNum, of r h' m] prems(2) l1 p1 unfolding VNum
        by (blast intro: preserves_trans)
    next
      case (VStr x)
      with Some prems(1) have "mergeKeys depth target source keys out ?h1 = (r, h')" by simp
      then show ?thesis
        using "4.IH"(4) [OF Some VStr, of r h' m] prems(2) l1 p1 unfolding VStr
        by (blast intro: preserves_trans)
    next
      case (VRef sa)
      show ?thesis
      proof (cases target)
        case tr: (VRef ta)
        show ?thesis
        proof (cases "getProp h ta key")
          case None
          with Some VRef tr prems(1)
          have "mergeKeys depth target source keys out ?h1 = (r, h')" by simp
          then show ?thesis
            using "4.IH"(5) [OF Some VRef tr None, of r h' m] prems(2) l1 p1 unfolding VRef
            by (blast intro: preserves_trans)
        next
          case tv: (Some tv)
          obtain r1 h1 where dm: "deepMerge depth tv (VRef sa) h = (r1, h1)"
            by (cases "deepMerge depth tv (VRef sa) h")
          from "4.IH"(6) [OF Some VRef tr tv dm]
          have pd: "preserves (length h) h h1" by simp
          then have pm: "preserves m h h1" using prems(3) preserves_mono by blast
          show ?thesis
          proof (cases r1)
            case (Inl e)
            with Some VRef tr tv dm prems(1) pm show ?thesis by auto
          next
            case (Inr x)
            let ?h2 = "setProp h1 out key x"
            from Inr Some VRef tr tv dm prems(1)
            have mk: "mergeKeys depth target source keys out ?h2 = (r, h')" by simp
            have l2: "m \<le> length ?h2" using pd prems(3) by (simp add: length_setProp preserves_def)
            have p2: "preserves m h1 ?h2" using prems(2) by (simp add: preserves_setProp)
            from "4.IH"(7) [OF Some VRef tr tv dm [symmetric] Inr mk prems(2) l2] pm p2
            show ?thesis by (blast intro: preserves_trans)
          qed
        qed
      qed (use Some VRef prems(1) in \<open>auto simp: preserves_refl\<close>)
    qed
  qed
qed

lemma getProp_preserved:
  "preserves n h h' \<Longrightarrow> a < n \<Longrightarrow> a < length h \<Longrightarrow> getProp h' a k = getProp h a k"
proof -
  assume p: "preserves n h h'" and a: "a < n" "a < length h"
  then have "take n h' ! a = take n h ! a" by (simp add: preserves_def)
  with a have "h' ! a = h ! a" by simp
  moreover have "a < length h'" using p a by (simp add: preserves_def)
  ultimately show ?thesis using a by (simp add: getProp_def propsOf_def)
qed

lemma lookupPath_preserved:
  "lookupPath h v ks = Some x \<Longrightarrow> preserves (length h) h h' \<Longrightarrow> lookupPath h' v ks = Some x"
proof (induction h v ks rule: lookupPath.induct)
  case (2 h a k ks)
  then obtain y where y: "getProp h a k = Some y" and l: "lookupPath h y ks = Some x"
    by (auto split: option.splits)
  from y have "a < length h" by (simp add: getProp_mem)
  with 2(3) have "getProp h' a k = getProp h a k" by (simp add: getProp_preserved)
  with y l 2 show ?case by simp
qed simp_all

lemma growsOnly_boolean: "growsOnly z_boolean"
  by (auto simp: growsOnly_def z_boolean_def preserves_refl split: option.splits val.splits)

lemma growsOnly_default: "growsOnly p \<Longrightarrow> growsOnly (z_default p d)"
  by (simp add: growsOnly_def z_default_def)

lemma z_fields_frame:
  "(\<forall>(k, p) \<in> set shape. growsOnly p) \<Longrightarrow> z_fields shape path a h = (res, h')
     \<Longrightarrow> preserves (length h) h h'"
proof (induction shape arbitrary: h res h')
  case Nil
  then show ?case by (simp add: preserves_refl)
next
  case (Cons kp shape)
  obtain k p where kp: "kp = (k, p)" by (cases kp)
  obtain r h1 where p1: "p (path @ [k]) (getProp h a k) h = (r, h1)"
    by (cases "p (path @ [k]) (getProp h a k) h")
  obtain res2 h2 where f2: "z_fields shape path a h1 = (res2, h2)"
    by (cases "z_fields shape path a h1")
  have "h' = h2" using Cons.prems(2) kp p1 f2 by (auto split: prod.splits sum.splits)
  moreover have "preserves (length h) h h1"
    using Cons.prems(1) kp p1 by (auto simp: growsOnly_def)
  moreover have "preserves (length h1) h1 h2"
    using Cons.IH [OF _ f2] Cons.prems(1) by simp
  ultimately show ?case
    by (metis preserves_length preserves_mono preserves_trans)
qed

lemma growsOnly_object:
  assumes "\<forall>(k, p) \<in> set shape. growsOnly p"
  shows "growsOnly (z_object shape)"
  unfolding growsOnly_def
proof (intro allI impI)
  fix path v h r h'
  assume z: "z_object shape path v h = (r, h')"
  show "preserves (length h) h h'"
  proof (cases "\<exists>a. v = Some (VRef a) \<and> \<not> isArrayAt h a")
    case True
    then obtain a where a: "v = Some (VRef a)" "\<not> isArrayAt h a" by blast
    obtain res h1 where f: "z_fields shape path a h = (res, h1)"
      by (cases "z_fields shape path a h")
    have p1: "preserves (length h) h h1" using z_fields_frame [OF assms f] .
    have "h' = h1 \<or> (\<exists>flds. h' = h1 @ [Obj False flds])"
      using z a f by (auto simp: z_object_def split: sum.splits)
    moreover have "\<And>flds. preserves (length h) h1 (h1 @ [Obj False flds])"
      using p1 by (simp add: preserves_append preserves_def)
    ultimately show ?thesis using p1 by (auto intro: preserves_trans)
  next
    case False
    then have "h' = h"
      using z by (auto simp: z_object_def split: option.splits val.splits if_splits)
    then show ?thesis by (simp add: preserves_refl)
  qed
qed

lemma z_fields_field:
  assumes "\<forall>(k, p) \<in> set shape. growsOnly p" and "distinct (map fst shape)"
    and "(k, p) \<in> set shape" and "yieldsBool p ks"
    and "z_fields shape path a h = (Inr flds, h')"
  shows "\<exists>x b. map_of flds k = Some x \<and> lookupPath h' x ks = Some (VBool b)"
  using assms
proof (induction shape arbitrary: h flds h')
  case Nil
  then show ?case by simp
next
  case (Cons kp shape)
  obtain k0 p0 where kp: "kp = (k0, p0)" by (cases kp)
  obtain r h1 where p1: "p0 (path @ [k0]) (getProp h a k0) h = (r, h1)"
    by (cases "p0 (path @ [k0]) (getProp h a k0) h")
  obtain res2 h2 where f2: "z_fields shape path a h1 = (res2, h2)"
    by (cases "z_fields shape path a h1")
  from Cons.prems(5) kp p1 f2 obtain v0 fs where
    r: "r = Inr v0" and res2: "res2 = Inr fs" and flds: "flds = (k0, v0) # fs" and h': "h' = h2"
    by (auto split: sum.splits)
  have g: "\<forall>(k, p) \<in> set shape. growsOnly p" using Cons.prems(1) by simp
  have pres: "preserves (length h1) h1 h2" using z_fields_frame [OF g f2] .
  show ?case
  proof (cases "k = k0")
    case True
    with Cons.prems(2,3) kp have "p = p0" by (auto simp: image_iff)
    with Cons.prems(4) p1 r obtain b where "lookupPath h1 v0 ks = Some (VBool b)"
      unfolding yieldsBool_def by blast
    with pres have "lookupPath h2 v0 ks = Some (VBool b)" by (rule lookupPath_preserved [rotated])
    with True flds h' show ?thesis by simp
  next
    case False
    with Cons.prems(3) kp have mem: "(k, p) \<in> set shape" by simp
    have d: "distinct (map fst shape)" using Cons.prems(2) by simp
    from Cons.IH [OF g d mem Cons.prems(4)] f2 res2
    obtain x b where "map_of fs k = Some x" "lookupPath h2 x ks = Some (VBool b)" by blast
    with False flds h' show ?thesis by simp
  qed
qed

lemma yieldsBool_object:
  assumes "\<forall>(k, p) \<in> set shape. growsOnly p" and "distinct (map fst shape)"
    and "(k, p) \<in> set shape" and "yieldsBool p ks"
  shows "yieldsBool (z_object shape) (k # ks)"
  unfolding yieldsBool_def
proof (intro allI impI)
  fix path v h x h'
  assume z: "z_object shape path v h = (Inr x, h')"
  then obtain a where a: "v = Some (VRef a)" "\<not> isArrayAt h a"
    by (auto simp: z_object_def split: option.splits val.splits if_splits)
  obtain res h1 where f: "z_fields shape path a h = (res, h1)"
    by (cases "z_fields shape path a h")
  with z a obtain flds where res: "res = Inr flds" and x: "x = VRef (length h1)"
      and h': "h' = h1 @ [Obj False flds]"
    by (auto simp: z_object_def split: sum.splits)
  from z_fields_field [OF assms] f res obtain y b where
    y: "map_of flds k = Some y" and l: "lookupPath h1 y ks = Some (VBool b)" by blast
  have "preserves (length h1) h1 h'" using h' by (simp add: preserves_append)
  with l have "lookupPath h' y ks = Some (VBool b)" by (rule lookupPath_preserved)
  moreover have "getProp h' (length h1) k = Some y"
    using y h' by (simp add: getProp_def propsOf_def)
  ultimately show "\<exists>b. lookupPath h' x (k # ks) = Some (VBool b)"
    using x by auto
qed

lemma yieldsBool_leaf: "yieldsBool (z_default z_boolean (VBool True)) []"
  by (auto simp: yieldsBool_def z_default_def z_boolean_def split: option.splits val.splits)

lemma growsOnly_leaf: "growsOnly (z_default z_boolean (VBool True))"
  by (simp add: growsOnly_default growsOnly_boolean)

lemma z_fields_rejects:
  assumes "\<forall>(k, p) \<in> set shape. growsOnly p"
    and "(k, p) \<in> set shape" and "rejects p ks"
    and "getProp h a k = Some x" and "wrongAt h x ks"
  shows "\<exists>issues h'. z_fields shape path a h = (Inl issues, h')"
  using assms
proof (induction shape arbitrary: h)
  case Nil
  then show ?case by simp
next
  case (Cons kp shape)
  obtain k0 p0 where kp: "kp = (k0, p0)" by (cases kp)
  obtain r h1 where p1: "p0 (path @ [k0]) (getProp h a k0) h = (r, h1)"
    by (cases "p0 (path @ [k0]) (getProp h a k0) h")
  obtain res2 h2 where f2: "z_fields shape path a h1 = (res2, h2)"
    by (cases "z_fields shape path a h1")
  show ?case
  proof (cases r)
    case (Inl found)
    with kp p1 f2 show ?thesis by (auto split: sum.splits)
  next
    case (Inr v0)
    have "(k, p) \<noteq> (k0, p0)"
    proof
      assume "(k, p) = (k0, p0)"
      with Cons.prems(3,4,5) obtain issues h' where "p0 (path @ [k0]) (getProp h a k0) h = (Inl issues, h')"
        unfolding rejects_def by force
      with p1 Inr show False by simp
    qed
    with Cons.prems(2) kp have mem: "(k, p) \<in> set shape" by auto
    have g: "\<forall>(k, p) \<in> set shape. growsOnly p" using Cons.prems(1) by simp
    have pres: "preserves (length h) h h1" using Cons.prems(1) kp p1 by (auto simp: growsOnly_def)
    have a: "a < length h" using Cons.prems(4) by (simp add: getProp_mem)
    have gp: "getProp h1 a k = Some x"
      using getProp_preserved [OF pres a a] Cons.prems(4) by simp
    have w: "wrongAt h1 x ks"
      using Cons.prems(5) pres unfolding wrongAt_def by (blast intro: lookupPath_preserved)
    from Cons.IH [OF g mem Cons.prems(3) gp w] f2 obtain more where "res2 = Inl more" by auto
    with kp p1 f2 Inr show ?thesis by simp
  qed
qed

lemma rejects_object:
  assumes "\<forall>(k, p) \<in> set shape. growsOnly p" and "(k, p) \<in> set shape" and "rejects p ks"
  shows "rejects (z_object shape) (k # ks)"
  unfolding rejects_def
proof (intro allI impI)
  fix path x h
  assume "wrongAt h x (k # ks)"
  then obtain a y where x: "x = VRef a" and gp: "getProp h a k = Some y" and w: "wrongAt h y ks"
    unfolding wrongAt_def by (cases x) (auto split: option.splits)
  show "\<exists>issues h'. z_object shape path (Some x) h = (Inl issues, h')"
  proof (cases "isArrayAt h a")
    case True
    with x show ?thesis by (simp add: z_object_def)
  next
    case False
    from z_fields_rejects [OF assms gp w]
    obtain issues h' where "z_fields shape path a h = (Inl issues, h')" by blast
    with x False show ?thesis by (simp add: z_object_def)
  qed
qed

lemma rejects_leaf: "rejects (z_default z_boolean (VBool True)) []"
  by (auto simp: rejects_def wrongAt_def z_default_def z_boolean_def split: val.splits)

section \<open>The parser and the resolver as a whole\<close>

lemma js_eq_iff [simp]: "js s = js t \<longleftrightarrow> s = t"
proof -
  have "inj (of_char :: char \<Rightarrow> 16 word)"
  proof (rule injI)
    fix x y :: char
    assume eq: "(of_char x :: 16 word) = of_char y"
    have u: "unat (of_char c :: 16 word) = of_char c" for c
    proof -
      have "(of_char c :: 16 word) = of_nat (of_char c)" by (simp add: of_nat_of_char)
      moreover have "(of_char c :: nat) < 2 ^ 16"
        by (rule order_less_trans [OF nat_of_char_less_256]) simp
      ultimately show ?thesis by (simp add: unat_of_nat)
    qed
    from eq have "unat (of_char x :: 16 word) = unat (of_char y :: 16 word)" by simp
    then have "(of_char x :: nat) = of_char y" by (simp add: u)
    then show "x = y" by simp
  qed
  then show ?thesis by (auto simp: js_def inj_map_eq_map)
qed

lemma closed_beyond: "length h \<le> n \<Longrightarrow> closed n h"
  by (auto simp: closed_def)

lemma mergedConfig_frame:
  assumes "mergedConfig depth content h = (r, h')"
  shows "preserves (length h) h h'"
proof -
  let ?h0 = "h @ [Obj False []]"
  obtain r1 h1 where pl: "parseLines (split 0x0A content) [] (length h) ?h0 = (r1, h1)"
    by (cases "parseLines (split 0x0A content) [] (length h) ?h0")
  have c0: "closed (length h) ?h0"
    by (rule closed_append) (simp_all add: closed_beyond)
  from parseLines_frame [OF pl _ c0] have p1: "preserves (length h) ?h0 h1" by simp
  have p0: "preserves (length h) h ?h0" by (simp add: preserves_append)
  have p01: "preserves (length h) h h1" using p0 p1 by (rule preserves_trans)
  show ?thesis
  proof (cases r1)
    case (Inl e)
    with assms pl p01 show ?thesis by (simp add: mergedConfig_def)
  next
    case (Inr u)
    with assms pl have "deepMerge depth (VRef defaultConfig) (VRef (length h)) h1 = (r, h')"
      by (simp add: mergedConfig_def)
    from deepMerge_frame(1) [OF this] have "preserves (length h1) h1 h'" by simp
    then have "preserves (length h) h1 h'"
      using preserves_length [OF p01] preserves_mono by blast
    with p01 show ?thesis by (rule preserves_trans)
  qed
qed

lemma parseContent_merged:
  "parseContent depth content h =
     (case mergedConfig depth content h of
        (Inl e, h2) \<Rightarrow> (Inl e, h2)
      | (Inr merged, h2) \<Rightarrow>
          (case configSchema [] (Some merged) h2 of
             (Inl issues, h3) \<Rightarrow> (Inl (InvalidConfiguration issues), h3)
           | (Inr validated, h3) \<Rightarrow> (Inr validated, h3)))"
  by (simp add: parseContent_def mergedConfig_def split: prod.splits sum.splits)

lemmas schema_keys = js_def

lemma growsOnly_commits:
  "growsOnly (z_object [(js ''postToBluesky'', z_default z_boolean (VBool True))])"
  by (rule growsOnly_object) (simp add: growsOnly_leaf)

lemma growsOnly_github:
  "growsOnly (z_object [(js ''commits'',
      z_object [(js ''postToBluesky'', z_default z_boolean (VBool True))])])"
  by (rule growsOnly_object) (simp add: growsOnly_commits)

lemma growsOnly_stats:
  "growsOnly (z_object [(js ''enable'', z_default z_boolean (VBool True))])"
  by (rule growsOnly_object) (simp add: growsOnly_leaf)

lemma growsOnly_configSchema: "growsOnly configSchema"
  unfolding configSchema_def
  by (rule growsOnly_object) (simp add: growsOnly_github growsOnly_stats)

lemma yieldsBool_postToBluesky:
  "yieldsBool configSchema [js ''github'', js ''commits'', js ''postToBluesky'']"
  unfolding configSchema_def
proof (rule yieldsBool_object)
  show "yieldsBool (z_object [(js ''commits'',
      z_object [(js ''postToBluesky'', z_default z_boolean (VBool True))])])
      [js ''commits'', js ''postToBluesky'']"
  proof (rule yieldsBool_object)
    show "yieldsBool (z_object [(js ''postToBluesky'', z_default z_boolean (VBool True))])
      [js ''postToBluesky'']"
      by (rule yieldsBool_object [OF _ _ _ yieldsBool_leaf]) (simp_all add: growsOnly_leaf)
  qed (simp_all add: growsOnly_commits)
qed (simp_all add: growsOnly_github growsOnly_stats)

lemma yieldsBool_enable:
  "yieldsBool configSchema [js ''stats'', js ''enable'']"
  unfolding configSchema_def
proof (rule yieldsBool_object)
  show "yieldsBool (z_object [(js ''enable'', z_default z_boolean (VBool True))]) [js ''enable'']"
    by (rule yieldsBool_object [OF _ _ _ yieldsBool_leaf]) (simp_all add: growsOnly_leaf)
qed (simp_all add: growsOnly_github growsOnly_stats)

lemma rejects_postToBluesky:
  "rejects configSchema [js ''github'', js ''commits'', js ''postToBluesky'']"
  unfolding configSchema_def
proof (rule rejects_object)
  show "rejects (z_object [(js ''commits'',
      z_object [(js ''postToBluesky'', z_default z_boolean (VBool True))])])
      [js ''commits'', js ''postToBluesky'']"
  proof (rule rejects_object)
    show "rejects (z_object [(js ''postToBluesky'', z_default z_boolean (VBool True))])
      [js ''postToBluesky'']"
      by (rule rejects_object [OF _ _ rejects_leaf]) (simp_all add: growsOnly_leaf)
  qed (simp_all add: growsOnly_commits)
qed (simp_all add: growsOnly_github growsOnly_stats)

lemma rejects_enable:
  "rejects configSchema [js ''stats'', js ''enable'']"
  unfolding configSchema_def
proof (rule rejects_object)
  show "rejects (z_object [(js ''enable'', z_default z_boolean (VBool True))]) [js ''enable'']"
    by (rule rejects_object [OF _ _ rejects_leaf]) (simp_all add: growsOnly_leaf)
qed (simp_all add: growsOnly_github growsOnly_stats)

lemma parseContent_frame:
  assumes "parseContent depth content h = (r, h')"
  shows "preserves (length h) h h'"
proof -
  obtain r2 h2 where m: "mergedConfig depth content h = (r2, h2)"
    by (cases "mergedConfig depth content h")
  have p2: "preserves (length h) h h2" using mergedConfig_frame [OF m] .
  show ?thesis
  proof (cases r2)
    case (Inl e)
    with assms m p2 show ?thesis by (simp add: parseContent_merged)
  next
    case (Inr merged)
    obtain r3 h3 where c: "configSchema [] (Some merged) h2 = (r3, h3)"
      by (cases "configSchema [] (Some merged) h2")
    with assms m Inr have "h' = h3" by (auto simp: parseContent_merged split: sum.splits)
    moreover have "preserves (length h2) h2 h3"
      using growsOnly_configSchema c unfolding growsOnly_def by blast
    then have "preserves (length h) h2 h3"
      using preserves_length [OF p2] preserves_mono by blast
    ultimately show ?thesis using p2 by (blast intro: preserves_trans)
  qed
qed

lemma parseContent_valid:
  assumes "parseContent depth content h = (Inr validated, h')"
  shows "\<exists>b1 b2.
     lookupPath h' validated [js ''github'', js ''commits'', js ''postToBluesky''] = Some (VBool b1)
     \<and> lookupPath h' validated [js ''stats'', js ''enable''] = Some (VBool b2)"
proof -
  from assms obtain merged h2 where "configSchema [] (Some merged) h2 = (Inr validated, h')"
    by (auto simp: parseContent_merged split: prod.splits sum.splits)
  with yieldsBool_postToBluesky yieldsBool_enable show ?thesis
    unfolding yieldsBool_def by blast
qed

lemma defaultIntact_preserved:
  assumes "defaultIntact h" and "preserves (length h) h h'"
  shows "defaultIntact h'"
proof -
  have len: "4 \<le> length h"
  proof -
    have "length (take 4 h) = 4" using assms(1) by (simp add: defaultIntact_def initialHeap_def)
    then show ?thesis by simp
  qed
  have "take 4 h' = take 4 (take (length h) h')" using len by (simp add: min_def)
  also have "\<dots> = take 4 h" using assms(2) by (simp add: preserves_def)
  finally show ?thesis using assms(1) by (simp add: defaultIntact_def)
qed

lemma defaultIntact_fields:
  assumes "defaultIntact h"
  shows "lookupPath h (VRef defaultConfig) [js ''github'', js ''commits'', js ''postToBluesky'']
           = Some (VBool True)"
    and "lookupPath h (VRef defaultConfig) [js ''stats'', js ''enable''] = Some (VBool True)"
proof -
  have t: "take 4 h = initialHeap" using assms by (simp add: defaultIntact_def)
  then have "length (take 4 h) = 4" by (simp add: initialHeap_def)
  then have len: "4 \<le> length h" by simp
  have nth: "h ! i = initialHeap ! i" if "i < 4" for i
    using that t by (metis nth_take)
  have ps: "propsOf h i = props (initialHeap ! i)" if "i < 4" for i
    using that len nth [of i] by (simp add: propsOf_def)
  have g0: "propsOf h 0 = [(js ''github'', VRef 1), (js ''stats'', VRef 3)]"
    using ps [of 0] by (simp add: initialHeap_def)
  have g1: "propsOf h (Suc 0) = [(js ''commits'', VRef 2)]"
    using ps [of 1] by (simp add: initialHeap_def)
  have g2: "propsOf h 2 = [(js ''postToBluesky'', VBool True)]"
    using ps [of 2] by (simp add: initialHeap_def)
  have g3: "propsOf h 3 = [(js ''enable'', VBool True)]"
    using ps [of 3] by (simp add: initialHeap_def)
  show "lookupPath h (VRef defaultConfig) [js ''github'', js ''commits'', js ''postToBluesky'']
           = Some (VBool True)"
    by (simp add: defaultConfig_def getProp_def g0 g1 g2)
  show "lookupPath h (VRef defaultConfig) [js ''stats'', js ''enable''] = Some (VBool True)"
    by (simp add: defaultConfig_def getProp_def g0 g3)
qed

lemma createConfig_cases:
  "createConfig depth getFileContent repository filePath h =
     (case repositoryPath repository of
        None \<Rightarrow> (Inr (VRef defaultConfig), h)
      | Some p \<Rightarrow>
          (case getFileContent p filePath of
             Inl e \<Rightarrow> (Inr (VRef defaultConfig), h)
           | Inr content \<Rightarrow>
               (case parseContent depth content h of
                  (Inl e, h1) \<Rightarrow> (Inr (VRef defaultConfig), h1)
                | (Inr parsed, h1) \<Rightarrow> (Inr parsed, h1))))"
  by (simp add: createConfig_def repositoryPath_def parseFile_def getConfig_def
      newConfigParser_def split: list.splits sum.splits prod.splits)

lemma createConfig_frame:
  assumes "createConfig depth getFileContent repository filePath h = (r, h')"
  shows "preserves (length h) h h'"
  using assms parseContent_frame
  by (auto simp: createConfig_cases preserves_refl split: option.splits sum.splits prod.splits)






section \<open>The lexer\<close>

lemma split_not_Nil: "split sep s \<noteq> []"
  by (induction s) (auto split: list.splits)

lemma split_append_sep: "split c (a @ c # b) = split c a @ split c b"
proof (induction a)
  case Nil
  then show ?case by simp
next
  case (Cons x a)
  obtain w ws where "split c a = w # ws"
    using split_not_Nil [of c a] by (cases "split c a") auto
  with Cons show ?case by simp
qed

lemma dropWhile_self: "xs = [] \<or> \<not> P (hd xs) \<Longrightarrow> dropWhile P xs = xs"
  by (cases xs) auto

lemma trim_idem: "trim (trim s) = trim s"
proof -
  define d where "d = dropWhile isWhiteSpace s"
  define e where "e = dropWhile isWhiteSpace (rev d)"
  have t: "trim s = rev e" by (simp add: trim_def d_def e_def)
  have e_hd: "e = [] \<or> \<not> isWhiteSpace (hd e)"
    using hd_dropWhile [of isWhiteSpace "rev d"] by (auto simp: e_def)
  have "rev e = [] \<or> \<not> isWhiteSpace (hd (rev e))"
  proof (cases "e = []")
    case False
    have "rev d = takeWhile isWhiteSpace (rev d) @ e" by (simp add: e_def)
    then have "rev (rev d) = rev (takeWhile isWhiteSpace (rev d) @ e)" by simp
    then have d: "d = rev e @ rev (takeWhile isWhiteSpace (rev d))" by simp
    then have "hd d = hd (rev e)" using False by (metis hd_append2 rev_is_Nil_conv)
    moreover have "d \<noteq> []" using d False by auto
    then have "\<not> isWhiteSpace (hd d)" unfolding d_def by (rule hd_dropWhile)
    ultimately show ?thesis by simp
  qed simp
  then have 1: "dropWhile isWhiteSpace (rev e) = rev e" by (rule dropWhile_self)
  have 2: "dropWhile isWhiteSpace e = e" using e_hd by (rule dropWhile_self)
  have "trim (rev e) = rev e" by (simp add: trim_def 1 2)
  then show ?thesis by (simp add: t)
qed



lemma kvSearch_first:
  "0x3D \<notin> set k \<Longrightarrow> acc @ k \<noteq> [] \<Longrightarrow> v \<noteq> [] \<Longrightarrow> kvSearch acc (k @ 0x3D # v) = Some (acc @ k, v)"
  by (induction k arbitrary: acc) auto





section \<open>The value inferencer on the examples\<close>

lemmas string_eval = js_def trim_def isWhiteSpace_def isLineTerminator_def toLowerCase_def
  startsWith_def

lemmas number_eval = Number_def unsignedDecimal_def radixOf_def exponentPart_def scale10_def
  numeralValue_def isDigitOf_def digitValue_def of_MV_def negate_def isNaN_def

lemmas value_eval = parseValue.simps stripQuotes_def isQuote_def

lemmas eval_rules = js_def trim_def isWhiteSpace_def isLineTerminator_def toLowerCase_def
  startsWith_def Number_def unsignedDecimal_def radixOf_def exponentPart_def scale10_def
  numeralValue_def isDigitOf_def digitValue_def of_MV_def negate_def isNaN_def
  parseValue.simps stripQuotes_def isQuote_def lexLine_def sectionMatch_def kvMatch_def
  parseLine_def assignPair_def setNestedValue_def assign_def getProp_def propsOf_def
  setProp_def initialHeap_def mergedConfig_def parseContent_def defaultConfig_def ownProps_def
  numeral_3_eq_3


text \<open>
  Claim C3, as the code has it.  The boolean, number and array rules see the quotes, so
  none of them matches the quoted word: for the input of the six characters
  \<open>"true"\<close> the inferencer reaches the string rule and returns the string \<open>true\<close> with the
  quotes stripped, not the boolean.
\<close>

theorem parseValue_quoted_true:
  "parseValue (js ''\"true\"'') = PStr (js ''true'')"
  by (simp add: value_eval string_eval number_eval)

text \<open>
  Claim C3 as stated fails: the quoted word is not inferred as the boolean \<open>true\<close>.
\<close>

theorem parseValue_quoted_true_not_boolean:
  "parseValue (js ''\"true\"'') \<noteq> PBool True"
  by (simp add: value_eval string_eval number_eval)

text \<open>
  Claim C6.  The inference priority on the examples of the specification: \<open>true\<close> and
  \<open>TRUE\<close> are the boolean true, \<open>42\<close> and \<open>3.14\<close> are numbers, \<open>1,2,3\<close> is the list of the
  numbers 1, 2, 3, \<open>a,b\<close> is the list of the strings \<open>a\<close> and \<open>b\<close>, and the quoted
  \<open>"hello"\<close> is the string \<open>hello\<close> without its quotes.
\<close>

theorem parseValue_examples:
  "parseValue (js ''true'') = PBool True
   \<and> parseValue (js ''TRUE'') = PBool True
   \<and> parseValue (js ''42'') = PNum (Finite 42)
   \<and> parseValue (js ''3.14'') = PNum (Finite 3.14)
   \<and> parseValue (js ''1,2,3'') = PArr [PNum (Finite 1), PNum (Finite 2), PNum (Finite 3)]
   \<and> parseValue (js ''a,b'') = PArr [PStr (js ''a''), PStr (js ''b'')]
   \<and> parseValue (js ''\"hello\"'') = PStr (js ''hello'')"
  by (simp add: value_eval string_eval number_eval)

section \<open>The resolver\<close>

text \<open>
  Claim C1.  Whatever the repository identifier, the outcome of the fetch and the text
  fetched, \<open>createConfig\<close> returns (it never throws), and what it returns is a
  configuration that holds a boolean at \<open>github.commits.postToBluesky\<close> and a boolean at
  \<open>stats.enable\<close>.  The store is one in which the default configuration is in place, as
  it is from the loading of the module on.
\<close>

theorem createConfig_total:
  assumes "defaultIntact h"
  shows "\<exists>validated h' b1 b2.
     createConfig depth getFileContent repository filePath h = (Inr validated, h')
     \<and> lookupPath h' validated [js ''github'', js ''commits'', js ''postToBluesky''] = Some (VBool b1)
     \<and> lookupPath h' validated [js ''stats'', js ''enable''] = Some (VBool b2)"
proof -
  obtain r h' where c: "createConfig depth getFileContent repository filePath h = (r, h')"
    by (cases "createConfig depth getFileContent repository filePath h")
  have intact: "defaultIntact h'"
    using assms createConfig_frame [OF c] by (rule defaultIntact_preserved)
  consider (default) "r = Inr (VRef defaultConfig)"
    | (parsed) content validated where "parseContent depth content h = (Inr validated, h')"
        "r = Inr validated"
    using c by (auto simp: createConfig_cases split: option.splits sum.splits prod.splits)
  then show ?thesis
  proof cases
    case default
    with c defaultIntact_fields [OF intact] show ?thesis by blast
  next
    case parsed
    with c parseContent_valid [OF parsed(1)] show ?thesis by blast
  qed
qed

theorem createConfig_total_witness:
  "defaultIntact initialHeap
   \<and> (\<exists>validated h' b1 b2.
        createConfig 3 (fetched (js ''stats.enable=banana'')) (js ''owner/repo'') (js ''rem.conf'')
          initialHeap = (Inr validated, h')
        \<and> lookupPath h' validated [js ''github'', js ''commits'', js ''postToBluesky'']
            = Some (VBool b1)
        \<and> lookupPath h' validated [js ''stats'', js ''enable''] = Some (VBool b2))"
proof -
  have "defaultIntact initialHeap"
    by (simp add: defaultIntact_def initialHeap_def)
  from this createConfig_total [OF this] show ?thesis by blast
qed

text \<open>
  Claim C4.  When the repository identifier has no non-empty owner and name around the
  slash, or the fetch throws, \<open>createConfig\<close> returns the default configuration object
  itself, with \<open>github.commits.postToBluesky\<close> and \<open>stats.enable\<close> both true; it throws
  nothing and leaves the store as it was.
\<close>

theorem createConfig_fallback:
  assumes "defaultIntact h"
    and "repositoryPath repository = None
         \<or> (\<exists>p e. repositoryPath repository = Some p \<and> getFileContent p filePath = Inl e)"
  shows "createConfig depth getFileContent repository filePath h = (Inr (VRef defaultConfig), h)
     \<and> lookupPath h (VRef defaultConfig) [js ''github'', js ''commits'', js ''postToBluesky'']
         = Some (VBool True)
     \<and> lookupPath h (VRef defaultConfig) [js ''stats'', js ''enable''] = Some (VBool True)"
proof -
  have "createConfig depth getFileContent repository filePath h = (Inr (VRef defaultConfig), h)"
    using assms(2) by (auto simp: createConfig_cases)
  with defaultIntact_fields [OF assms(1)] show ?thesis by blast
qed

theorem createConfig_fallback_witness:
  "defaultIntact initialHeap
   \<and> repositoryPath (js ''norepo'') = None
   \<and> createConfig 3 unreachable (js ''norepo'') (js ''rem.conf'') initialHeap
       = (Inr (VRef defaultConfig), initialHeap)
   \<and> repositoryPath (js ''owner/repo'') = Some (js ''owner/repo'')
   \<and> unreachable (js ''owner/repo'') (js ''rem.conf'') = Inl (Error ''Failed to fetch file'')
   \<and> createConfig 3 unreachable (js ''owner/repo'') (js ''rem.conf'') initialHeap
       = (Inr (VRef defaultConfig), initialHeap)
   \<and> lookupPath initialHeap (VRef defaultConfig) [js ''stats'', js ''enable''] = Some (VBool True)"
proof -
  have i: "defaultIntact initialHeap"
    by (simp add: defaultIntact_def initialHeap_def)
  have r1: "repositoryPath (js ''norepo'') = None"
    by (simp add: repositoryPath_def js_def)
  have r2: "repositoryPath (js ''owner/repo'') = Some (js ''owner/repo'')"
    by (simp add: repositoryPath_def js_def)
  have u: "unreachable (js ''owner/repo'') (js ''rem.conf'') = Inl (Error ''Failed to fetch file'')"
    by (simp add: unreachable_def)
  from createConfig_fallback [OF i, of "js ''norepo''" unreachable "js ''rem.conf''" 3] r1
       createConfig_fallback [OF i, of "js ''owner/repo''" unreachable "js ''rem.conf''" 3] r2 u i
  show ?thesis by blast
qed

section \<open>The default configuration is never mutated\<close>



section \<open>The validation policy\<close>

text \<open>
  Claim C2, as the code has it.  Validation is strict: when after the merge a declared
  leaf holds a value that is not a boolean, \<open>parseContent\<close> throws the \<open>Error\<close> made of
  the issues, and \<open>createConfig\<close> returns the default configuration, in which every
  declared field has its default, also a field whose parsed value was a boolean.
\<close>

theorem strict_validation:
  assumes "defaultIntact h"
    and "mergedConfig depth content h = (Inr merged, h2)"
    and "wrongAt h2 merged [js ''github'', js ''commits'', js ''postToBluesky'']
         \<or> wrongAt h2 merged [js ''stats'', js ''enable'']"
    and "repositoryPath repository = Some p" and "getFileContent p filePath = Inr content"
  shows "(\<exists>issues h'. parseContent depth content h = (Inl (InvalidConfiguration issues), h'))
     \<and> (\<exists>h'. createConfig depth getFileContent repository filePath h = (Inr (VRef defaultConfig), h')
          \<and> lookupPath h' (VRef defaultConfig) [js ''github'', js ''commits'', js ''postToBluesky'']
              = Some (VBool True)
          \<and> lookupPath h' (VRef defaultConfig) [js ''stats'', js ''enable''] = Some (VBool True))"
proof -
  from assms(3) rejects_postToBluesky rejects_enable
  obtain issues h3 where "configSchema [] (Some merged) h2 = (Inl issues, h3)"
    unfolding rejects_def by blast
  with assms(2) have pc: "parseContent depth content h = (Inl (InvalidConfiguration issues), h3)"
    by (simp add: parseContent_merged)
  with assms(4,5)
  have cc: "createConfig depth getFileContent repository filePath h = (Inr (VRef defaultConfig), h3)"
    by (simp add: createConfig_cases)
  have "defaultIntact h3"
    using assms(1) parseContent_frame [OF pc] by (rule defaultIntact_preserved)
  from defaultIntact_fields [OF this] pc cc show ?thesis by blast
qed

theorem strict_validation_witness:
  "defaultIntact initialHeap
   \<and> fst (mergedConfig 3 (js ''github.commits.postToBluesky=false\<newline>stats.enable=banana'')
            initialHeap) = Inr (VRef 8)
   \<and> lookupPath
        (snd (mergedConfig 3 (js ''github.commits.postToBluesky=false\<newline>stats.enable=banana'')
                initialHeap))
        (VRef 8) [js ''stats'', js ''enable''] = Some (VStr (js ''banana''))
   \<and> repositoryPath (js ''owner/repo'') = Some (js ''owner/repo'')
   \<and> (\<exists>issues h'.
        parseContent 3 (js ''github.commits.postToBluesky=false\<newline>stats.enable=banana'')
          initialHeap = (Inl (InvalidConfiguration issues), h'))
   \<and> (\<exists>h'. createConfig 3
              (fetched (js ''github.commits.postToBluesky=false\<newline>stats.enable=banana''))
              (js ''owner/repo'') (js ''rem.conf'') initialHeap = (Inr (VRef defaultConfig), h')
          \<and> lookupPath h' (VRef defaultConfig) [js ''github'', js ''commits'', js ''postToBluesky'']
              = Some (VBool True)
          \<and> lookupPath h' (VRef defaultConfig) [js ''stats'', js ''enable''] = Some (VBool True))"
proof -
  let ?c = "js ''github.commits.postToBluesky=false\<newline>stats.enable=banana''"
  let ?m = "mergedConfig 3 ?c initialHeap"
  have i: "defaultIntact initialHeap"
    by (simp add: defaultIntact_def initialHeap_def)
  have fm: "fst ?m = Inr (VRef 8)" by code_simp
  then have m: "?m = (Inr (VRef 8), snd ?m)" by (simp add: prod_eq_iff)
  have l: "lookupPath (snd ?m) (VRef 8) [js ''stats'', js ''enable''] = Some (VStr (js ''banana''))"
    by code_simp
  then have w: "wrongAt (snd ?m) (VRef 8) [js ''github'', js ''commits'', js ''postToBluesky'']
         \<or> wrongAt (snd ?m) (VRef 8) [js ''stats'', js ''enable'']"
    unfolding wrongAt_def by blast
  have r: "repositoryPath (js ''owner/repo'') = Some (js ''owner/repo'')" by code_simp
  have f: "fetched ?c (js ''owner/repo'') (js ''rem.conf'') = Inr ?c" by (simp add: fetched_def)
  from strict_validation [where getFileContent = "fetched ?c", OF i m w r f] i fm l r
  show ?thesis by blast
qed

text \<open>
  Claim C2 as stated fails.  For the text \<open>github.commits.postToBluesky=false\<close> followed
  by \<open>stats.enable=banana\<close> the merged object holds the parsed \<open>false\<close> at
  \<open>github.commits.postToBluesky\<close>, yet the configuration returned is the default and
  holds \<open>true\<close> there: the wrong type of the other field has cost this field its value.
\<close>

theorem partial_fallback_counterexample:
  "fst (mergedConfig 3 (js ''github.commits.postToBluesky=false\<newline>stats.enable=banana'')
          initialHeap) = Inr (VRef 8)
   \<and> lookupPath
        (snd (mergedConfig 3 (js ''github.commits.postToBluesky=false\<newline>stats.enable=banana'')
                initialHeap))
        (VRef 8) [js ''github'', js ''commits'', js ''postToBluesky''] = Some (VBool False)
   \<and> fst (createConfig 3
            (fetched (js ''github.commits.postToBluesky=false\<newline>stats.enable=banana''))
            (js ''owner/repo'') (js ''rem.conf'') initialHeap) = Inr (VRef defaultConfig)
   \<and> lookupPath
        (snd (createConfig 3
                (fetched (js ''github.commits.postToBluesky=false\<newline>stats.enable=banana''))
                (js ''owner/repo'') (js ''rem.conf'') initialHeap))
        (VRef defaultConfig) [js ''github'', js ''commits'', js ''postToBluesky'']
       = Some (VBool True)"
  by code_simp

section \<open>The path assigner and leaves\<close>




section \<open>Sections, keys and lines\<close>

text \<open>
  Claim C8.  The two lines \<open>[github.commits]\<close> and \<open>postToBluesky=false\<close> and the single
  line \<open>github.commits.postToBluesky=false\<close> leave the same store behind, in which
  \<open>configObj\<close> is \<open>{github: {commits: {postToBluesky: false}}}\<close>, and \<open>parseContent\<close>
  returns the same for both texts.  In general a pair under a section is assigned as the
  pair whose key is the section, a dot and the key; the path is the segments of the
  section followed by the segments of the key.
\<close>

theorem section_header_equals_dotted_key:
  "parseLines (split 0x0A (js ''[github.commits]\<newline>postToBluesky=false'')) []
       (length initialHeap) (initialHeap @ [Obj False []])
     = (Inr (), initialHeap @
          [Obj False [(js ''github'', VRef 5)],
           Obj False [(js ''commits'', VRef 6)],
           Obj False [(js ''postToBluesky'', VBool False)]])
   \<and> parseLines (split 0x0A (js ''github.commits.postToBluesky=false'')) []
       (length initialHeap) (initialHeap @ [Obj False []])
     = (Inr (), initialHeap @
          [Obj False [(js ''github'', VRef 5)],
           Obj False [(js ''commits'', VRef 6)],
           Obj False [(js ''postToBluesky'', VBool False)]])
   \<and> parseContent depth (js ''[github.commits]\<newline>postToBluesky=false'') initialHeap
     = parseContent depth (js ''github.commits.postToBluesky=false'') initialHeap
   \<and> (currentSection \<noteq> [] \<longrightarrow>
        assignPair currentSection key raw obj h
          = assignPair [] (currentSection @ 0x2E # key) raw obj h
        \<and> split 0x2E (currentSection @ 0x2E # key)
          = split 0x2E currentSection @ split 0x2E key)"
proof -
  let ?H = "initialHeap @
          [Obj False [(js ''github'', VRef 5)],
           Obj False [(js ''commits'', VRef 6)],
           Obj False [(js ''postToBluesky'', VBool False)]]"
  have 1: "parseLines (split 0x0A (js ''[github.commits]\<newline>postToBluesky=false'')) []
       (length initialHeap) (initialHeap @ [Obj False []]) = (Inr (), ?H)"
    by (simp add: eval_rules)
  have 2: "parseLines (split 0x0A (js ''github.commits.postToBluesky=false'')) []
       (length initialHeap) (initialHeap @ [Obj False []]) = (Inr (), ?H)"
    by (simp add: eval_rules)
  have 3: "parseContent depth (js ''[github.commits]\<newline>postToBluesky=false'') initialHeap
     = parseContent depth (js ''github.commits.postToBluesky=false'') initialHeap"
    unfolding parseContent_def 1 2 ..
  have 4: "assignPair currentSection key raw obj h
      = assignPair [] (currentSection @ 0x2E # key) raw obj h"
    if "currentSection \<noteq> []"
    using that by (simp add: assignPair_def)
  from 1 2 3 4 show ?thesis by (simp add: split_append_sep)
qed

theorem section_header_equals_dotted_key_witness:
  "js ''github.commits'' \<noteq> []
   \<and> assignPair (js ''github.commits'') (js ''postToBluesky'') (js ''false'') 4
        (initialHeap @ [Obj False []])
     = assignPair [] (js ''github.commits.postToBluesky'') (js ''false'') 4
        (initialHeap @ [Obj False []])
   \<and> split 0x2E (js ''github.commits.postToBluesky'')
     = split 0x2E (js ''github.commits'') @ split 0x2E (js ''postToBluesky'')"
proof -
  have n: "js ''github.commits'' \<noteq> []" by (simp add: js_def)
  have j: "js ''github.commits'' @ 0x2E # js ''postToBluesky'' = js ''github.commits.postToBluesky''"
    by (simp add: js_def)
  note section_header_equals_dotted_key
         [where currentSection = "js ''github.commits''" and key = "js ''postToBluesky''"
            and raw = "js ''false''" and obj = 4 and h = "initialHeap @ [Obj False []]",
          THEN conjunct2, THEN conjunct2, THEN conjunct2, THEN mp, OF n]
  then show ?thesis using n unfolding j by simp
qed

text \<open>
  Claim C9, as the code has it.  The line is trimmed and the value is trimmed, so
  whitespace before the key and around the value is of no effect.  The key is everything
  before the first equals sign that has something before and after it, whitespace
  included: the line \<open>stats.enable = false\<close> assigns \<open>false\<close> at the path of \<open>stats\<close> and
  \<open>enable\<close> followed by a space.
\<close>

theorem key_whitespace_kept:
  "lexLine (trim line) = lexLine line
   \<and> parseValue (trim raw) = parseValue raw
   \<and> (key \<noteq> [] \<and> 0x3D \<notin> set key \<and> raw \<noteq> [] \<and> \<not> list_ex isLineTerminator (key @ raw)
        \<longrightarrow> kvMatch (key @ 0x3D # raw) = Some (key, raw))
   \<and> parseLines [js ''stats.enable = false''] [] (length initialHeap) (initialHeap @ [Obj False []])
     = (Inr (), initialHeap @
          [Obj False [(js ''stats'', VRef 5)], Obj False [(js ''enable '', VBool False)]])"
proof (intro conjI impI)
  show "lexLine (trim line) = lexLine line"
    by (simp add: lexLine_def trim_idem)
  show "parseValue (trim raw) = parseValue raw"
    by (simp add: parseValue.simps [of raw] parseValue.simps [of "trim raw"] trim_idem)
  show "parseLines [js ''stats.enable = false''] [] (length initialHeap) (initialHeap @ [Obj False []])
     = (Inr (), initialHeap @
          [Obj False [(js ''stats'', VRef 5)], Obj False [(js ''enable '', VBool False)]])"
    by (simp add: eval_rules)
next
  assume a: "key \<noteq> [] \<and> 0x3D \<notin> set key \<and> raw \<noteq> [] \<and> \<not> list_ex isLineTerminator (key @ raw)"
  have "\<not> isLineTerminator 0x3D" by (simp add: isLineTerminator_def)
  with a have "\<not> list_ex isLineTerminator (key @ 0x3D # raw)" by (simp add: list_ex_iff)
  moreover have "kvSearch [] (key @ 0x3D # raw) = Some ([] @ key, raw)"
    using a by (intro kvSearch_first) simp_all
  ultimately show "kvMatch (key @ 0x3D # raw) = Some (key, raw)"
    by (simp add: kvMatch_def)
qed

theorem key_whitespace_kept_witness:
  "js ''stats.enable '' \<noteq> [] \<and> 0x3D \<notin> set (js ''stats.enable '') \<and> js '' false'' \<noteq> []
   \<and> \<not> list_ex isLineTerminator (js ''stats.enable '' @ js '' false'')
   \<and> kvMatch (js ''stats.enable = false'') = Some (js ''stats.enable '', js '' false'')"
proof -
  have h: "js ''stats.enable '' \<noteq> [] \<and> 0x3D \<notin> set (js ''stats.enable '') \<and> js '' false'' \<noteq> []
     \<and> \<not> list_ex isLineTerminator (js ''stats.enable '' @ js '' false'')"
    by (simp add: js_def isLineTerminator_def)
  have j: "js ''stats.enable '' @ 0x3D # js '' false'' = js ''stats.enable = false''"
    by (simp add: js_def)
  note key_whitespace_kept
         [where key = "js ''stats.enable ''" and raw = "js '' false''",
          THEN conjunct2, THEN conjunct2, THEN conjunct1, THEN mp, OF h]
  then show ?thesis using h unfolding j by simp
qed

text \<open>
  Claim C9 as stated fails: for the line \<open>stats.enable = false\<close> the key keeps its
  trailing space, nothing is assigned at the path \<open>stats.enable\<close>, and the configuration
  returned has \<open>stats.enable\<close> true.
\<close>

theorem key_trimmed_counterexample:
  "lexLine (js ''stats.enable = false'') = Pair (js ''stats.enable '') (js '' false'')
   \<and> lookupPath
        (snd (parseLines [js ''stats.enable = false''] [] (length initialHeap)
                (initialHeap @ [Obj False []])))
        (VRef 4) [js ''stats'', js ''enable''] = None
   \<and> lookupPath
        (snd (parseLines [js ''stats.enable = false''] [] (length initialHeap)
                (initialHeap @ [Obj False []])))
        (VRef 4) [js ''stats'', js ''enable ''] = Some (VBool False)
   \<and> fst (createConfig 3 (fetched (js ''stats.enable = false'')) (js ''owner/repo'')
            (js ''rem.conf'') initialHeap) = Inr (VRef 11)
   \<and> lookupPath
        (snd (createConfig 3 (fetched (js ''stats.enable = false'')) (js ''owner/repo'')
                (js ''rem.conf'') initialHeap))
        (VRef 11) [js ''stats'', js ''enable''] = Some (VBool True)"
  by code_simp





end
